theory Spec2Isabelle
  imports Complex_Main "HOL-Library.Multiset"
begin

section \<open>Birthday paradox: data model\<close>

text \<open>
  The program is \<^verbatim>\<open>src/app.py\<close>. A \<^verbatim>\<open>datetime.date\<close> is a triple of a year, a
  month and a day; only the month and the day take part in the collision logic.
\<close>

record date =
  year :: int
  month :: int
  day :: int

text \<open>The exceptions the program and the library calls it makes can raise.\<close>

datatype py_error = ValueError | ZeroDivisionError | IndexError | OverflowError

subsection \<open>Calendar helpers\<close>

definition MONTH_LENGTHS_COMMON :: "int list" where
  "MONTH_LENGTHS_COMMON = [31, 28, 31, 30, 31, 30, 31, 31, 30, 31, 30, 31]"

definition MONTH_LENGTHS_LEAP :: "int list" where
  "MONTH_LENGTHS_LEAP = [31, 29, 31, 30, 31, 30, 31, 31, 30, 31, 30, 31]"

definition month_lengths :: "bool \<Rightarrow> int list" where
  "month_lengths include_leap =
     (if include_leap then MONTH_LENGTHS_LEAP else MONTH_LENGTHS_COMMON)"

section \<open>The random source and the library calls\<close>

text \<open>
  The program draws from Python's process-wide generator. Here the generator is the
  tape of the raw draws still to come, passed explicitly: a library call reads the head
  of the tape and returns the rest. Every outcome of the random source is some tape.
\<close>

type_synonym rng = "nat \<Rightarrow> nat"

definition draw :: "rng \<Rightarrow> nat \<times> rng" where
  "draw g = (g 0, \<lambda>i. g (Suc i))"

text \<open>
  \<^verbatim>\<open>random.choices(population, weights=weights, k=1)[0]\<close>, as the standard library
  computes it: the cumulative weights are bisected at a point of \<open>[0, total)\<close>, the search
  being capped at the last index. The weights are integers here, so the index depends on
  the integer part of the point only, which is what the raw draw gives.
\<close>

fun weighted_index :: "int list \<Rightarrow> int \<Rightarrow> nat" where
  "weighted_index [] u = 0"
| "weighted_index [w] u = 0"
| "weighted_index (w # ws) u = (if u < w then 0 else Suc (weighted_index ws (u - w)))"

definition random_choices :: "'a list \<Rightarrow> int list \<Rightarrow> rng \<Rightarrow> (py_error + 'a) \<times> rng" where
  "random_choices population weights g =
     (if length weights \<noteq> length population then (Inl ValueError, g)
      else if population = [] then (Inl IndexError, g)
      else if sum_list weights \<le> 0 then (Inl ValueError, g)
      else (let (r, g') = draw g
            in (Inr (population ! weighted_index weights (int (r mod nat (sum_list weights)))),
                g')))"

text \<open>
  \<^verbatim>\<open>random.randint(a, b)\<close>: an integer of \<open>[a, b]\<close>, and \<^verbatim>\<open>ValueError\<close> on an empty
  range.
\<close>

definition random_randint :: "int \<Rightarrow> int \<Rightarrow> rng \<Rightarrow> (py_error + int) \<times> rng" where
  "random_randint a b g =
     (if b < a then (Inl ValueError, g)
      else (let (r, g') = draw g in (Inr (a + int (r mod nat (b - a + 1))), g')))"

text \<open>Python's list indexing: a negative index counts from the end.\<close>

definition list_index :: "'a list \<Rightarrow> int \<Rightarrow> py_error + 'a" where
  "list_index xs i =
     (if 0 \<le> i \<and> i < int (length xs) then Inr (xs ! nat i)
      else if i < 0 \<and> - int (length xs) \<le> i then Inr (xs ! nat (int (length xs) + i))
      else Inl IndexError)"

text \<open>
  The constructor \<^verbatim>\<open>datetime.date(year, month, day)\<close> checks its fields against the
  calendar of the year it is given (years 1 to 9999, the Gregorian leap rule) and raises
  \<^verbatim>\<open>ValueError\<close> otherwise.
\<close>

definition is_leap :: "int \<Rightarrow> bool" where
  "is_leap y = (y mod 4 = 0 \<and> (y mod 100 \<noteq> 0 \<or> y mod 400 = 0))"

definition days_in_month :: "int \<Rightarrow> int \<Rightarrow> int" where
  "days_in_month y m =
     (if m = 2 \<and> is_leap y then 29 else MONTH_LENGTHS_COMMON ! nat (m - 1))"

definition date_new :: "int \<Rightarrow> int \<Rightarrow> int \<Rightarrow> py_error + date" where
  "date_new y m d =
     (if \<not> (1 \<le> y \<and> y \<le> 9999) then Inl ValueError
      else if \<not> (1 \<le> m \<and> m \<le> 12) then Inl ValueError
      else if \<not> (1 \<le> d \<and> d \<le> days_in_month y m) then Inl ValueError
      else Inr \<lparr>year = y, month = m, day = d\<rparr>)"

section \<open>Birthday generators\<close>

definition random_birthday :: "int \<Rightarrow> bool \<Rightarrow> rng \<Rightarrow> (py_error + date) \<times> rng" where
  "random_birthday yr include_leap g =
     (let months = month_lengths include_leap
      in case random_choices [1..12] months g of
           (Inl e, g1) \<Rightarrow> (Inl e, g1)
         | (Inr m, g1) \<Rightarrow>
             (case list_index months (m - 1) of
                Inl e \<Rightarrow> (Inl e, g1)
              | Inr len \<Rightarrow>
                  (case random_randint 1 len g1 of
                     (Inl e, g2) \<Rightarrow> (Inl e, g2)
                   | (Inr d, g2) \<Rightarrow> (date_new yr m d, g2))))"

text \<open>
  The list comprehension of \<^verbatim>\<open>generate_group\<close>: one call of
  \<^verbatim>\<open>random_birthday(include_leap=include_leap)\<close>, the year left at its default 2001,
  for each element of \<^verbatim>\<open>range(n)\<close>; an exception ends it.
\<close>

fun generate_loop :: "nat \<Rightarrow> bool \<Rightarrow> rng \<Rightarrow> (py_error + date list) \<times> rng" where
  "generate_loop 0 include_leap g = (Inr [], g)"
| "generate_loop (Suc k) include_leap g =
     (case random_birthday 2001 include_leap g of
        (Inl e, g1) \<Rightarrow> (Inl e, g1)
      | (Inr d, g1) \<Rightarrow>
          (case generate_loop k include_leap g1 of
             (Inl e, g2) \<Rightarrow> (Inl e, g2)
           | (Inr ds, g2) \<Rightarrow> (Inr (d # ds), g2)))"

definition generate_group :: "int \<Rightarrow> bool \<Rightarrow> rng \<Rightarrow> (py_error + date list) \<times> rng" where
  "generate_group n include_leap g = generate_loop (nat n) include_leap g"

section \<open>Duplicate detection\<close>

definition md_pairs :: "date list \<Rightarrow> (int \<times> int) list" where
  "md_pairs dates = map (\<lambda>d. (month d, day d)) dates"

text \<open>
  \<^verbatim>\<open>len(md) != len(set(md))\<close>: the length of the list against the number of elements
  of the set built from it.
\<close>

definition has_shared_birthday :: "date list \<Rightarrow> bool" where
  "has_shared_birthday dates =
     (let md = md_pairs dates in length md \<noteq> card (set md))"

text \<open>
  \<^verbatim>\<open>Counter(xs)\<close> is a dictionary, so it keeps its keys in the order of their first
  occurrence: an association list with one entry per key. Counting an element bumps its
  entry where it stands, or appends a new entry with count one.
\<close>

fun counter_add :: "'a \<Rightarrow> ('a \<times> nat) list \<Rightarrow> ('a \<times> nat) list" where
  "counter_add x [] = [(x, 1)]"
| "counter_add x ((k, c) # kvs) =
     (if x = k then (k, c + 1) # kvs else (k, c) # counter_add x kvs)"

definition Counter :: "'a list \<Rightarrow> ('a \<times> nat) list" where
  "Counter xs = fold counter_add xs []"

text \<open>The dictionary comprehension \<^verbatim>\<open>{k: v for k, v in counts.items() if v > 1}\<close>.\<close>

definition find_shared_birthdays :: "date list \<Rightarrow> ((int \<times> int) \<times> nat) list" where
  "find_shared_birthdays dates =
     (let counts = Counter (md_pairs dates) in filter (\<lambda>(k, v). v > 1) counts)"

section \<open>Probability calculations\<close>

text \<open>
  A Python \<^verbatim>\<open>float\<close> is an IEEE binary64 number, and each float operation returns the
  exact real result rounded to the nearest float. The rounding is a parameter \<open>rnd\<close> of
  the model: \<open>float_rounding rnd\<close> lists what the proofs use of it, all of which
  round-to-nearest has: it is monotone, it leaves 0 and 1 (and every value it returns)
  unchanged, and on \<open>[0, 1]\<close> it moves a number by at most the unit roundoff \<open>2\<^sup>-\<^sup>5\<^sup>3\<close>.
  Exact arithmetic is the instance where \<open>rnd\<close> is the identity. The one operation of
  the program whose result can leave the range of the floats is the division of two
  integers, which then raises \<^verbatim>\<open>OverflowError\<close>.
\<close>

definition float_rounding :: "(real \<Rightarrow> real) \<Rightarrow> bool" where
  "float_rounding rnd \<longleftrightarrow>
     mono rnd \<and> rnd 0 = 0 \<and> rnd 1 = 1 \<and> (\<forall>x. rnd (rnd x) = rnd x)
     \<and> (\<forall>x. 0 \<le> x \<and> x \<le> 1 \<longrightarrow> \<bar>rnd x - x\<bar> \<le> 1 / 2 ^ 53)"


text \<open>
  The largest float is \<open>2\<^sup>1\<^sup>0\<^sup>2\<^sup>4 - 2\<^sup>9\<^sup>7\<^sup>1\<close>, with an odd significand. A quotient whose
  magnitude reaches the midpoint \<open>2\<^sup>1\<^sup>0\<^sup>2\<^sup>4 - 2\<^sup>9\<^sup>7\<^sup>0\<close> between it and \<open>2\<^sup>1\<^sup>0\<^sup>2\<^sup>4\<close> rounds (ties
  to even) to \<open>2\<^sup>1\<^sup>0\<^sup>2\<^sup>4\<close>, which is no float.
\<close>

definition float_overflow :: real where
  "float_overflow = 2 ^ 1024 - 2 ^ 970"

text \<open>
  True division \<^verbatim>\<open>a / b\<close> of two integers: \<^verbatim>\<open>ZeroDivisionError\<close> when the divisor is
  zero, \<^verbatim>\<open>OverflowError\<close> (integer division result too large for a float) when the
  rounded quotient would be out of range, and the correctly rounded quotient otherwise.
\<close>

definition py_truediv :: "(real \<Rightarrow> real) \<Rightarrow> int \<Rightarrow> int \<Rightarrow> py_error + real" where
  "py_truediv rnd a b =
     (if b = 0 then Inl ZeroDivisionError
      else if float_overflow \<le> \<bar>real_of_int a / real_of_int b\<bar> then Inl OverflowError
      else Inr (rnd (real_of_int a / real_of_int b)))"

text \<open>
  The loop \<^verbatim>\<open>for i in range(n): p_all_diff *= (days - i) / days\<close>, over the list of
  the indices still to visit.
\<close>

fun p_all_diff_loop :: "(real \<Rightarrow> real) \<Rightarrow> int \<Rightarrow> nat list \<Rightarrow> real \<Rightarrow> py_error + real" where
  "p_all_diff_loop rnd days [] p = Inr p"
| "p_all_diff_loop rnd days (i # is) p =
     (case py_truediv rnd (days - int i) days of
        Inl e \<Rightarrow> Inl e
      | Inr q \<Rightarrow> p_all_diff_loop rnd days is (rnd (p * q)))"

definition exact_probability :: "(real \<Rightarrow> real) \<Rightarrow> int \<Rightarrow> int \<Rightarrow> py_error + real" where
  "exact_probability rnd n days =
     (if n \<le> 1 then Inr 0
      else if n > days then Inr 1
      else (case p_all_diff_loop rnd days [0..<nat n] 1 of
              Inl e \<Rightarrow> Inl e
            | Inr p_all_diff \<Rightarrow> Inr (rnd (1 - p_all_diff))))"

text \<open>
  The value of \<^verbatim>\<open>p_all_diff\<close> after the first \<open>k\<close> rounds of the loop, for the
  proofs: the loop as a fold, with no error branch.
\<close>

definition p_all_diff :: "(real \<Rightarrow> real) \<Rightarrow> int \<Rightarrow> nat \<Rightarrow> real" where
  "p_all_diff rnd days k =
     fold (\<lambda>i p. rnd (p * rnd (real_of_int (days - int i) / real_of_int days))) [0..<k] 1"

text \<open>
  The search \<^verbatim>\<open>while exact_probability(n, days) < target: n += 1\<close> has no bound of its
  own, so its result is an option: \<open>None\<close> is a loop that never ends.
\<close>

partial_function (option) smallest_group_loop ::
    "(real \<Rightarrow> real) \<Rightarrow> real \<Rightarrow> int \<Rightarrow> int \<Rightarrow> (py_error + int) option" where
  "smallest_group_loop rnd target days n =
     (case exact_probability rnd n days of
        Inl e \<Rightarrow> Some (Inl e)
      | Inr p \<Rightarrow>
          if p < target then smallest_group_loop rnd target days (n + 1)
          else Some (Inr n))"

declare smallest_group_loop.simps [code]

definition smallest_group_for :: "(real \<Rightarrow> real) \<Rightarrow> real \<Rightarrow> int \<Rightarrow> (py_error + int) option" where
  "smallest_group_for rnd target days = smallest_group_loop rnd target days 1"


section \<open>Simulation\<close>

text \<open>The loop of \<^verbatim>\<open>simulated_probability\<close>, over the trials still to run.\<close>

fun simulation_loop :: "nat \<Rightarrow> int \<Rightarrow> bool \<Rightarrow> int \<Rightarrow> rng \<Rightarrow> (py_error + int) \<times> rng" where
  "simulation_loop 0 n include_leap hits g = (Inr hits, g)"
| "simulation_loop (Suc t) n include_leap hits g =
     (case generate_group n include_leap g of
        (Inl e, g1) \<Rightarrow> (Inl e, g1)
      | (Inr ds, g1) \<Rightarrow>
          simulation_loop t n include_leap
            (if has_shared_birthday ds then hits + 1 else hits) g1)"

definition simulated_probability ::
    "(real \<Rightarrow> real) \<Rightarrow> int \<Rightarrow> int \<Rightarrow> bool \<Rightarrow> rng \<Rightarrow> (py_error + real) \<times> rng" where
  "simulated_probability rnd n trials include_leap g =
     (case simulation_loop (nat trials) n include_leap 0 g of
        (Inl e, g') \<Rightarrow> (Inl e, g')
      | (Inr hits, g') \<Rightarrow> (py_truediv rnd hits trials, g'))"

text \<open>
  \<^verbatim>\<open>buckets[label] += 1\<close> on a \<^verbatim>\<open>defaultdict(int)\<close>: a label that is not there yet
  starts from zero.
\<close>

definition bump :: "(string \<rightharpoonup> int) \<Rightarrow> string \<Rightarrow> (string \<rightharpoonup> int)" where
  "bump buckets label =
     buckets(label \<mapsto> (case buckets label of None \<Rightarrow> 0 | Some c \<Rightarrow> c) + 1)"

fun histogram_loop ::
    "nat \<Rightarrow> int \<Rightarrow> bool \<Rightarrow> (string \<rightharpoonup> int) \<Rightarrow> rng \<Rightarrow> (py_error + (string \<rightharpoonup> int)) \<times> rng" where
  "histogram_loop 0 n include_leap buckets g = (Inr buckets, g)"
| "histogram_loop (Suc t) n include_leap buckets g =
     (case generate_group n include_leap g of
        (Inl e, g1) \<Rightarrow> (Inl e, g1)
      | (Inr ds, g1) \<Rightarrow>
          (let dups = find_shared_birthdays ds; k = length dups
           in histogram_loop t n include_leap
                (if k = 0 then bump buckets ''0 days with duplicates''
                 else if k = 1 then bump buckets ''1 day with duplicates''
                 else bump buckets ''2+ days with duplicates'') g1))"

definition collision_histogram ::
    "int \<Rightarrow> int \<Rightarrow> bool \<Rightarrow> rng \<Rightarrow> (py_error + (string \<rightharpoonup> int)) \<times> rng" where
  "collision_histogram n trials include_leap g =
     histogram_loop (nat trials) n include_leap Map.empty g"

text \<open>
  For the statements about the two loops: the groups that the trials generate, one call
  of \<^verbatim>\<open>generate_group\<close> after the other on the same random source, and the label of the
  bucket in which \<^verbatim>\<open>collision_histogram\<close> counts a group.
\<close>

fun trial_groups :: "nat \<Rightarrow> int \<Rightarrow> bool \<Rightarrow> rng \<Rightarrow> (py_error + date list list) \<times> rng" where
  "trial_groups 0 n include_leap g = (Inr [], g)"
| "trial_groups (Suc t) n include_leap g =
     (case generate_group n include_leap g of
        (Inl e, g1) \<Rightarrow> (Inl e, g1)
      | (Inr ds, g1) \<Rightarrow>
          (case trial_groups t n include_leap g1 of
             (Inl e, g2) \<Rightarrow> (Inl e, g2)
           | (Inr gs, g2) \<Rightarrow> (Inr (ds # gs), g2)))"

definition bucket_label :: "date list \<Rightarrow> string" where
  "bucket_label ds =
     (let k = length (find_shared_birthdays ds)
      in if k = 0 then ''0 days with duplicates''
         else if k = 1 then ''1 day with duplicates''
         else ''2+ days with duplicates'')"

section \<open>Properties of the duplicate detector\<close>

lemma card_set_md_less_iff:
  "(length xs \<noteq> card (set xs)) = (card (set xs) < length xs)"
  using card_length [of xs] by arith

lemma map_of_counter_add:
  "map_of (counter_add x kvs) =
     (map_of kvs)(x \<mapsto> (case map_of kvs x of None \<Rightarrow> 1 | Some c \<Rightarrow> c + 1))"
  by (induction kvs) (auto simp: fun_eq_iff)

lemma keys_counter_add:
  "map fst (counter_add x kvs) =
     (if x \<in> set (map fst kvs) then map fst kvs else map fst kvs @ [x])"
proof (induction kvs)
  case Nil
  then show ?case by simp
next
  case (Cons kv kvs)
  obtain k c where kv: "kv = (k, c)" by (cases kv)
  show ?case
  proof (cases "x = k")
    case True
    then show ?thesis using kv by simp
  next
    case False
    then show ?thesis using kv Cons.IH by simp
  qed
qed

lemma distinct_counter_add:
  "distinct (map fst kvs) \<Longrightarrow> distinct (map fst (counter_add x kvs))"
  by (simp add: keys_counter_add)

lemma distinct_fold_counter_add:
  "distinct (map fst kvs) \<Longrightarrow> distinct (map fst (fold counter_add xs kvs))"
  by (induction xs arbitrary: kvs) (simp_all add: distinct_counter_add)

lemma map_of_fold_counter_add:
  "distinct (map fst kvs) \<Longrightarrow> map_of kvs k \<noteq> Some 0 \<Longrightarrow>
   map_of (fold counter_add xs kvs) k =
     (if count_list xs k = 0 then map_of kvs k
      else Some (count_list xs k + (case map_of kvs k of None \<Rightarrow> 0 | Some c \<Rightarrow> c)))"
proof (induction xs arbitrary: kvs)
  case Nil
  then show ?case by simp
next
  case (Cons x xs)
  have d: "distinct (map fst (counter_add x kvs))"
    using Cons.prems(1) by (rule distinct_counter_add)
  have nz: "map_of (counter_add x kvs) k \<noteq> Some 0"
    using Cons.prems(2) by (auto simp: map_of_counter_add split: option.splits)
  show ?case
    using Cons.IH [OF d nz]
    by (auto simp: map_of_counter_add split: option.splits)
qed

lemma map_of_Counter:
  "map_of (Counter xs) k = (if count_list xs k = 0 then None else Some (count_list xs k))"
  unfolding Counter_def by (simp add: map_of_fold_counter_add)

lemma distinct_Counter: "distinct (map fst (Counter xs))"
  unfolding Counter_def by (rule distinct_fold_counter_add) simp

lemma map_of_filter_distinct:
  "distinct (map fst kvs) \<Longrightarrow>
   map_of (filter P kvs) k =
     (case map_of kvs k of None \<Rightarrow> None | Some v \<Rightarrow> if P (k, v) then Some v else None)"
proof (induction kvs)
  case Nil
  then show ?case by simp
next
  case (Cons kv kvs)
  obtain k' v' where kv: "kv = (k', v')" by (cases kv)
  have notin: "k' \<notin> fst ` set kvs" using Cons.prems kv by simp
  have none: "map_of kvs k' = None" using notin by (simp add: map_of_eq_None_iff)
  show ?case
    using Cons kv none by (auto split: option.splits)
qed

lemma has_shared_birthday_not_distinct:
  "has_shared_birthday dates = (\<not> distinct (md_pairs dates))"
  unfolding has_shared_birthday_def Let_def
  using card_distinct [of "md_pairs dates"] distinct_card [of "md_pairs dates"]
  by auto

lemma find_shared_birthdays_lookup:
  "map_of (find_shared_birthdays dates) k =
     (if 1 < count_list (md_pairs dates) k then Some (count_list (md_pairs dates) k)
      else None)"
  unfolding find_shared_birthdays_def Let_def
  by (simp add: map_of_filter_distinct [OF distinct_Counter] map_of_Counter)

lemma find_shared_birthdays_keys_distinct:
  "distinct (map fst (find_shared_birthdays dates))"
  unfolding find_shared_birthdays_def Let_def
  by (rule distinct_map_filter) (rule distinct_Counter)

text \<open>
  Claim C4. \<^verbatim>\<open>has_shared_birthday(dates)\<close> is true exactly when the multiset of the
  (month, day) pairs of the list has fewer distinct elements than elements; it is false
  on the empty list and true on every list whose pairs are (1,1), (1,1), (2,2), whatever
  the years.
\<close>

theorem has_shared_birthday_iff_fewer_distinct:
  "has_shared_birthday dates =
     (card (set_mset (image_mset (\<lambda>d. (month d, day d)) (mset dates)))
        < size (image_mset (\<lambda>d. (month d, day d)) (mset dates)))
   \<and> has_shared_birthday [] = False
   \<and> has_shared_birthday
        [\<lparr>year = y1, month = 1, day = 1\<rparr>, \<lparr>year = y2, month = 1, day = 1\<rparr>,
         \<lparr>year = y3, month = 2, day = 2\<rparr>] = True"
proof -
  have m: "image_mset (\<lambda>d. (month d, day d)) (mset dates) = mset (md_pairs dates)"
    by (simp add: md_pairs_def)
  have general: "has_shared_birthday dates =
     (card (set_mset (image_mset (\<lambda>d. (month d, day d)) (mset dates)))
        < size (image_mset (\<lambda>d. (month d, day d)) (mset dates)))"
    unfolding m has_shared_birthday_def Let_def
    by (simp add: card_set_md_less_iff)
  have empty: "has_shared_birthday [] = False"
    by (simp add: has_shared_birthday_def md_pairs_def)
  have three: "has_shared_birthday
        [\<lparr>year = y1, month = 1, day = 1\<rparr>, \<lparr>year = y2, month = 1, day = 1\<rparr>,
         \<lparr>year = y3, month = 2, day = 2\<rparr>] = True"
    by (simp add: has_shared_birthday_not_distinct md_pairs_def)
  from general empty three show ?thesis by blast
qed

lemma count_list_md_pairs:
  "count_list (md_pairs dates) (m, d) =
     length (filter (\<lambda>x. month x = m \<and> day x = d) dates)"
  by (induction dates) (simp_all add: md_pairs_def)

text \<open>
  Claim C5. \<^verbatim>\<open>find_shared_birthdays(dates)\<close> is exactly the mapping that sends each
  (month, day) pair occurring more than once in the list to the number of its
  occurrences, that is to the number of dates of the list with that month and that day:
  a pair that occurs at most once has no entry, no key is listed twice, and no entry has
  a count of one or less. On a list whose pairs are (1,1), (1,1), (2,2) the result is the
  single entry (1,1) with count 2, and on the pairs (3,5), (5,3), (3,9), (3,5) it is the
  single entry (3,5) with count 2, whatever the years.
\<close>

theorem find_shared_birthdays_exact:
  "map_of (find_shared_birthdays dates) (m, d) =
     (if 1 < length (filter (\<lambda>x. month x = m \<and> day x = d) dates)
      then Some (length (filter (\<lambda>x. month x = m \<and> day x = d) dates))
      else None)
   \<and> distinct (map fst (find_shared_birthdays dates))
   \<and> (\<forall>k v. (k, v) \<in> set (find_shared_birthdays dates) \<longrightarrow> 1 < v)
   \<and> find_shared_birthdays
        [\<lparr>year = y1, month = 1, day = 1\<rparr>, \<lparr>year = y2, month = 1, day = 1\<rparr>,
         \<lparr>year = y3, month = 2, day = 2\<rparr>] = [((1, 1), 2)]
   \<and> find_shared_birthdays
        [\<lparr>year = y1, month = 3, day = 5\<rparr>, \<lparr>year = y2, month = 5, day = 3\<rparr>,
         \<lparr>year = y3, month = 3, day = 9\<rparr>, \<lparr>year = y4, month = 3, day = 5\<rparr>]
       = [((3, 5), 2)]"
proof -
  have lookup: "map_of (find_shared_birthdays dates) (m, d) =
     (if 1 < length (filter (\<lambda>x. month x = m \<and> day x = d) dates)
      then Some (length (filter (\<lambda>x. month x = m \<and> day x = d) dates))
      else None)"
    by (simp only: find_shared_birthdays_lookup count_list_md_pairs)
  have no_small: "\<forall>k v. (k, v) \<in> set (find_shared_birthdays dates) \<longrightarrow> 1 < v"
    by (auto simp: find_shared_birthdays_def)
  have three: "find_shared_birthdays
        [\<lparr>year = y1, month = 1, day = 1\<rparr>, \<lparr>year = y2, month = 1, day = 1\<rparr>,
         \<lparr>year = y3, month = 2, day = 2\<rparr>] = [((1, 1), 2)]"
    by (simp add: find_shared_birthdays_def Counter_def md_pairs_def)
  have four: "find_shared_birthdays
        [\<lparr>year = y1, month = 3, day = 5\<rparr>, \<lparr>year = y2, month = 5, day = 3\<rparr>,
         \<lparr>year = y3, month = 3, day = 9\<rparr>, \<lparr>year = y4, month = 3, day = 5\<rparr>]
       = [((3, 5), 2)]"
    by (simp add: find_shared_birthdays_def Counter_def md_pairs_def)
  from lookup find_shared_birthdays_keys_distinct no_small three four
  show ?thesis by blast
qed

theorem find_shared_birthdays_exact_witness:
  "map_of (find_shared_birthdays
        [\<lparr>year = 2001, month = 3, day = 5\<rparr>, \<lparr>year = 1999, month = 5, day = 3\<rparr>,
         \<lparr>year = 2001, month = 3, day = 9\<rparr>, \<lparr>year = 2004, month = 3, day = 5\<rparr>]) (3, 5)
     = Some 2
   \<and> map_of (find_shared_birthdays
        [\<lparr>year = 2001, month = 3, day = 5\<rparr>, \<lparr>year = 1999, month = 5, day = 3\<rparr>,
         \<lparr>year = 2001, month = 3, day = 9\<rparr>, \<lparr>year = 2004, month = 3, day = 5\<rparr>]) (5, 3)
     = None
   \<and> ((3, 5), 2) \<in> set (find_shared_birthdays
        [\<lparr>year = 2001, month = 3, day = 5\<rparr>, \<lparr>year = 1999, month = 5, day = 3\<rparr>,
         \<lparr>year = 2001, month = 3, day = 9\<rparr>, \<lparr>year = 2004, month = 3, day = 5\<rparr>])
   \<and> (1::nat) < 2"
proof -
  let ?ds = "[\<lparr>year = 2001, month = 3, day = 5\<rparr>, \<lparr>year = 1999, month = 5, day = 3\<rparr>,
         \<lparr>year = 2001, month = 3, day = 9\<rparr>, \<lparr>year = 2004, month = 3, day = 5\<rparr>]"
  have a: "map_of (find_shared_birthdays ?ds) (3, 5) = Some 2"
    using find_shared_birthdays_exact [of ?ds 3 5] by simp
  have b: "map_of (find_shared_birthdays ?ds) (5, 3) = None"
    using find_shared_birthdays_exact [of ?ds 5 3] by simp
  have c: "find_shared_birthdays ?ds = [((3, 5), 2)]"
    using find_shared_birthdays_exact [of ?ds 3 5 2001 1999 2001 2004] by blast
  from a b show ?thesis unfolding c by simp
qed

section \<open>Properties of the birthday generators\<close>

lemma weighted_index_less:
  "ws \<noteq> [] \<Longrightarrow> weighted_index ws u < length ws"
  by (induction ws u rule: weighted_index.induct) auto

lemma month_cases:
  "1 \<le> (m::int) \<Longrightarrow> m \<le> 12 \<Longrightarrow>
   m = 1 \<or> m = 2 \<or> m = 3 \<or> m = 4 \<or> m = 5 \<or> m = 6 \<or> m = 7 \<or> m = 8 \<or> m = 9 \<or> m = 10
   \<or> m = 11 \<or> m = 12"
  by arith

lemma random_choices_months:
  "random_choices [1..12] (month_lengths include_leap) g =
     (Inr (1 + int (weighted_index (month_lengths include_leap)
             (int (g 0 mod nat (sum_list (month_lengths include_leap)))))),
      \<lambda>i. g (Suc i))"
proof -
  have len: "length (month_lengths include_leap) = 12"
    by (simp add: month_lengths_def MONTH_LENGTHS_LEAP_def MONTH_LENGTHS_COMMON_def)
  have ne: "month_lengths include_leap \<noteq> []" using len by auto
  have lt: "weighted_index (month_lengths include_leap) u < 12" for u
    using weighted_index_less [OF ne, of u] len by simp
  have pos: "\<not> sum_list (month_lengths include_leap) \<le> 0"
    by (simp add: month_lengths_def MONTH_LENGTHS_LEAP_def MONTH_LENGTHS_COMMON_def)
  have nth: "[1..12] ! k = 1 + int k" if "k < 12" for k
    using that by (simp add: nth_upto)
  have l12: "length [1..12::int] = 12" by simp
  show ?thesis
    unfolding random_choices_def draw_def Let_def 
    using len pos nth [OF lt] l12 by (simp del: upto_rec_numeral)
qed

lemma month_lengths_nth_bounds:
  "k < 12 \<Longrightarrow> 28 \<le> month_lengths include_leap ! k \<and> month_lengths include_leap ! k \<le> 31"
proof -
  assume "k < 12"
  then have "k = 0 \<or> k = 1 \<or> k = 2 \<or> k = 3 \<or> k = 4 \<or> k = 5 \<or> k = 6 \<or> k = 7 \<or> k = 8 \<or> k = 9
     \<or> k = 10 \<or> k = 11" by arith
  then show ?thesis
    by (auto simp: month_lengths_def MONTH_LENGTHS_LEAP_def MONTH_LENGTHS_COMMON_def)
qed

lemma days_in_month_model:
  "k < 12 \<Longrightarrow>
   days_in_month yr (1 + int k) =
     (if k = 1 \<and> \<not> is_leap yr then 28 else month_lengths True ! k)"
proof -
  assume "k < 12"
  then have "k = 0 \<or> k = 1 \<or> k = 2 \<or> k = 3 \<or> k = 4 \<or> k = 5 \<or> k = 6 \<or> k = 7 \<or> k = 8 \<or> k = 9
     \<or> k = 10 \<or> k = 11" by arith
  then show ?thesis
    by (auto simp: days_in_month_def month_lengths_def MONTH_LENGTHS_LEAP_def
        MONTH_LENGTHS_COMMON_def)
qed


lemma length_month_lengths: "length (month_lengths include_leap) = 12"
  by (simp add: month_lengths_def MONTH_LENGTHS_LEAP_def MONTH_LENGTHS_COMMON_def)

lemma weighted_index_months: "weighted_index (month_lengths include_leap) u < 12"
proof -
  have "month_lengths include_leap \<noteq> []"
    using length_month_lengths [of include_leap] by auto
  then show ?thesis
    using weighted_index_less [of "month_lengths include_leap" u]
    by (simp add: length_month_lengths)
qed

lemma random_birthday_unfold:
  "random_birthday yr include_leap g =
     (let k = weighted_index (month_lengths include_leap)
                (int (g 0 mod nat (sum_list (month_lengths include_leap))));
          len = month_lengths include_leap ! k;
          d = 1 + int (g 1 mod nat len)
      in (date_new yr (1 + int k) d, \<lambda>i. g (Suc (Suc i))))"
proof -
  define k where "k = weighted_index (month_lengths include_leap)
                (int (g 0 mod nat (sum_list (month_lengths include_leap))))"
  have len: "length (month_lengths include_leap) = 12"
    by (simp add: month_lengths_def MONTH_LENGTHS_LEAP_def MONTH_LENGTHS_COMMON_def)
  have k: "k < 12"
    unfolding k_def by (rule weighted_index_months)
  have idx: "list_index (month_lengths include_leap) (int k) =
      Inr (month_lengths include_leap ! k)"
    using k len by (simp add: list_index_def)
  have b: "28 \<le> month_lengths include_leap ! k"
    using month_lengths_nth_bounds [OF k] by simp
  have rint: "random_randint 1 (month_lengths include_leap ! k) g' =
      (Inr (1 + int (g' 0 mod nat (month_lengths include_leap ! k))), \<lambda>i. g' (Suc i))" for g'
    using b by (simp add: random_randint_def draw_def)
  show ?thesis
    unfolding random_birthday_def Let_def random_choices_months k_def [symmetric]
    by (simp add: idx rint)
qed

lemma random_birthday_in_model:
  assumes "random_birthday yr include_leap g = (Inr d, g')"
  shows "year d = yr \<and> 1 \<le> month d \<and> month d \<le> 12 \<and> 1 \<le> day d
    \<and> day d \<le> month_lengths include_leap ! nat (month d - 1)"
proof -
  define k where "k = weighted_index (month_lengths include_leap)
                (int (g 0 mod nat (sum_list (month_lengths include_leap))))"
  define len where "len = month_lengths include_leap ! k"
  have len12: "length (month_lengths include_leap) = 12"
    by (simp add: month_lengths_def MONTH_LENGTHS_LEAP_def MONTH_LENGTHS_COMMON_def)
  have k: "k < 12"
    unfolding k_def by (rule weighted_index_months)
  have b: "28 \<le> len" unfolding len_def using month_lengths_nth_bounds [OF k] by simp
  have dn: "date_new yr (1 + int k) (1 + int (g 1 mod nat len)) = Inr d"
    using assms unfolding random_birthday_unfold Let_def k_def [symmetric] len_def [symmetric]
    by simp
  then have d: "d = \<lparr>year = yr, month = 1 + int k, day = 1 + int (g 1 mod nat len)\<rparr>"
    by (auto simp: date_new_def split: if_splits)
  have "g 1 mod nat len < nat len" using b by simp
  then have "1 + int (g 1 mod nat len) \<le> len" using b by linarith
  then show ?thesis using d k by (simp add: len_def)
qed

lemma random_birthday_outcome:
  "fst (random_birthday yr include_leap g) =
     (let k = weighted_index (month_lengths include_leap)
                (int (g 0 mod nat (sum_list (month_lengths include_leap))));
          d = 1 + int (g 1 mod nat (month_lengths include_leap ! k))
      in if 1 \<le> yr \<and> yr \<le> 9999 \<and> \<not> (k = 1 \<and> d = 29 \<and> \<not> is_leap yr)
         then Inr \<lparr>year = yr, month = 1 + int k, day = d\<rparr> else Inl ValueError)"
proof -
  define k where "k = weighted_index (month_lengths include_leap)
                (int (g 0 mod nat (sum_list (month_lengths include_leap))))"
  define len where "len = month_lengths include_leap ! k"
  define d where "d = 1 + int (g 1 mod nat len)"
  have len12: "length (month_lengths include_leap) = 12"
    by (simp add: month_lengths_def MONTH_LENGTHS_LEAP_def MONTH_LENGTHS_COMMON_def)
  have k: "k < 12"
    unfolding k_def by (rule weighted_index_months)
  have b: "28 \<le> len" unfolding len_def using month_lengths_nth_bounds [OF k] by simp
  have "g 1 mod nat len < nat len" using b by simp
  then have dle: "d \<le> len" and dge: "1 \<le> d" unfolding d_def using b by linarith+
  have lenle: "len \<le> month_lengths True ! k"
    using k unfolding len_def
  proof -
    from k have "k = 0 \<or> k = 1 \<or> k = 2 \<or> k = 3 \<or> k = 4 \<or> k = 5 \<or> k = 6 \<or> k = 7 \<or> k = 8
      \<or> k = 9 \<or> k = 10 \<or> k = 11" by arith
    then show "month_lengths include_leap ! k \<le> month_lengths True ! k"
      by (auto simp: month_lengths_def MONTH_LENGTHS_LEAP_def MONTH_LENGTHS_COMMON_def)
  qed
  have feb: "month_lengths True ! 1 = 29"
    by (simp add: month_lengths_def MONTH_LENGTHS_LEAP_def)
  have ok: "(d \<le> days_in_month yr (1 + int k)) = (\<not> (k = 1 \<and> d = 29 \<and> \<not> is_leap yr))"
    using dle lenle feb unfolding days_in_month_model [OF k] by auto
  have m: "1 \<le> 1 + int k \<and> 1 + int k \<le> 12" using k by simp
  have "date_new yr (1 + int k) d =
      (if 1 \<le> yr \<and> yr \<le> 9999 \<and> \<not> (k = 1 \<and> d = 29 \<and> \<not> is_leap yr)
       then Inr \<lparr>year = yr, month = 1 + int k, day = d\<rparr> else Inl ValueError)"
    unfolding date_new_def ok using m dge by presburger
  then show ?thesis
    unfolding random_birthday_unfold Let_def k_def [symmetric] len_def [symmetric]
      d_def [symmetric]
    by (simp only: fst_conv)
qed


lemma snd_random_birthday:
  "snd (random_birthday yr include_leap g) = (\<lambda>i. g (Suc (Suc i)))"
  unfolding random_birthday_unfold Let_def by simp

lemma random_birthday_common_returns:
  assumes "1 \<le> yr" and "yr \<le> 9999"
  shows "\<exists>d. random_birthday yr False g = (Inr d, \<lambda>i. g (Suc (Suc i)))"
proof -
  define k where "k = weighted_index (month_lengths False)
                (int (g 0 mod nat (sum_list (month_lengths False))))"
  define d where "d = 1 + int (g 1 mod nat (month_lengths False ! k))"
  have "d \<noteq> 29" if "k = 1"
  proof -
    have "month_lengths False ! k = 28"
      using that by (simp add: month_lengths_def MONTH_LENGTHS_COMMON_def)
    then have "d = 1 + int (g 1 mod 28)" unfolding d_def by simp
    moreover have "g 1 mod 28 < 28" by simp
    ultimately show ?thesis by linarith
  qed
  then have "fst (random_birthday yr False g) = Inr \<lparr>year = yr, month = 1 + int k, day = d\<rparr>"
    unfolding random_birthday_outcome Let_def k_def [symmetric] d_def [symmetric]
    using assms by auto
  then show ?thesis
    using snd_random_birthday [of yr False g]
    by (metis prod.collapse)
qed

lemma generate_loop_common_returns:
  "\<exists>ds. generate_loop k False g = (Inr ds, \<lambda>i. g (i + 2 * k)) \<and> length ds = k"
proof (induction k arbitrary: g)
  case 0
  then show ?case by simp
next
  case (Suc k)
  obtain d where d: "random_birthday 2001 False g = (Inr d, \<lambda>i. g (Suc (Suc i)))"
    using random_birthday_common_returns [of 2001 g] by auto
  obtain ds where ds: "generate_loop k False (\<lambda>i. g (Suc (Suc i))) =
      (Inr ds, \<lambda>i. g (Suc (Suc (i + 2 * k))))" and len: "length ds = k"
    using Suc.IH [of "\<lambda>i. g (Suc (Suc i))"] by auto
  show ?case using d ds len by simp
qed

lemma generate_loop_length:
  "generate_loop k include_leap g = (Inr ds, g') \<Longrightarrow> length ds = k"
proof (induction k arbitrary: g ds g')
  case 0
  then show ?case by simp
next
  case (Suc k)
  then show ?case
    by (auto split: prod.splits sum.splits)
qed

text \<open>
  Claim C7, as amended. The claim asks for an invalid-argument failure when \<open>n < 0\<close>; the
  program has no such check. For every \<open>n < 0\<close>, \<^verbatim>\<open>generate_group(n, include_leap)\<close>
  returns the empty list normally, and draws nothing from the random source, since
  \<^verbatim>\<open>range(n)\<close> is empty.
\<close>

theorem generate_group_negative_empty:
  "n < 0 \<Longrightarrow> generate_group n include_leap g = (Inr [], g)"
  by (simp add: generate_group_def)

theorem generate_group_negative_empty_witness:
  "(- 1 :: int) < 0 \<and> generate_group (- 1) True (\<lambda>i. 0) = (Inr [], \<lambda>i. 0)"
  using generate_group_negative_empty [of "- 1" True "\<lambda>i. 0"] by simp

text \<open>
  The claim as stated fails at \<open>n = -1\<close>: the call raises nothing.
\<close>

theorem generate_group_negative_counterexample:
  "\<not> (\<exists>e g'. generate_group (- 1) False (\<lambda>i. 0) = (Inl e, g'))"
  by (simp add: generate_group_def)

text \<open>
  Claim C8 at a failing input. With the leap-year table, the draws that choose February
  and then day 29 reach \<^verbatim>\<open>datetime.date(2001, 2, 29)\<close>, and 2001 is not a leap year:
  the constructor raises \<^verbatim>\<open>ValueError\<close>, so its error branch is reachable.
\<close>

theorem random_birthday_leap_day_raises:
  "fst (random_birthday 2001 True (\<lambda>i. if i = 0 then 31 else 28)) = Inl ValueError"
  by (simp add: random_birthday_def month_lengths_def MONTH_LENGTHS_LEAP_def random_choices_def
    draw_def list_index_def random_randint_def date_new_def days_in_month_def is_leap_def
    MONTH_LENGTHS_COMMON_def)

section \<open>Properties of the probability calculations\<close>

lemma p_all_diff_0: "p_all_diff rnd days 0 = 1"
  by (simp add: p_all_diff_def)

lemma p_all_diff_Suc:
  "p_all_diff rnd days (Suc k) =
     rnd (p_all_diff rnd days k * rnd (real_of_int (days - int k) / real_of_int days))"
  by (simp add: p_all_diff_def)

lemma one_less_float_overflow: "1 < float_overflow"
  by (simp add: float_overflow_def)

lemma py_truediv_unit:
  assumes "b \<noteq> 0" and "\<bar>real_of_int a / real_of_int b\<bar> \<le> 1"
  shows "py_truediv rnd a b = Inr (rnd (real_of_int a / real_of_int b))"
proof -
  from assms(2) one_less_float_overflow
  have "\<not> float_overflow \<le> \<bar>real_of_int a / real_of_int b\<bar>" by linarith
  then show ?thesis unfolding py_truediv_def using assms(1) by (simp only: if_False)
qed

lemma day_factor_truediv:
  assumes "int i < days"
  shows "py_truediv rnd (days - int i) days =
    Inr (rnd (real_of_int (days - int i) / real_of_int days))"
proof (rule py_truediv_unit)
  from assms show "days \<noteq> 0" by linarith
  from assms have d: "0 < real_of_int days" by simp
  from assms have n: "0 \<le> real_of_int (days - int i)" by simp
  have le: "real_of_int (days - int i) \<le> real_of_int days" by simp
  from n d have "\<bar>real_of_int (days - int i) / real_of_int days\<bar>
      = real_of_int (days - int i) / real_of_int days" by simp
  also from le d have "\<dots> \<le> 1" by simp
  finally show "\<bar>real_of_int (days - int i) / real_of_int days\<bar> \<le> 1" .
qed

lemma p_all_diff_loop_fold:
  "\<forall>i \<in> set is. int i < days \<Longrightarrow>
   p_all_diff_loop rnd days is p =
     Inr (fold (\<lambda>i p. rnd (p * rnd (real_of_int (days - int i) / real_of_int days))) is p)"
  by (induction "is" arbitrary: p) (simp_all add: day_factor_truediv)

lemma exact_probability_value:
  "exact_probability rnd n days =
     Inr (if n \<le> 1 then 0 else if n > days then 1
          else rnd (1 - p_all_diff rnd days (nat n)))"
proof -
  have "p_all_diff_loop rnd days [0..<nat n] 1 = Inr (p_all_diff rnd days (nat n))"
    if "\<not> n \<le> 1" and "\<not> n > days"
  proof -
    from that have "\<forall>i \<in> set [0..<nat n]. int i < days" by auto
    then show ?thesis by (simp add: p_all_diff_loop_fold p_all_diff_def)
  qed
  then show ?thesis by (simp add: exact_probability_def)
qed

lemma float_rounding_unit:
  assumes "float_rounding rnd" and "0 \<le> x" and "x \<le> 1"
  shows "0 \<le> rnd x" and "rnd x \<le> 1"
proof -
  from assms(1) have m: "mono rnd" and z: "rnd 0 = 0" and o: "rnd 1 = 1"
    by (simp_all add: float_rounding_def)
  show "0 \<le> rnd x" using monoD [OF m assms(2)] z by simp
  show "rnd x \<le> 1" using monoD [OF m assms(3)] o by simp
qed

lemma day_factor_unit:
  assumes "int k < days"
  shows "0 \<le> real_of_int (days - int k) / real_of_int days"
    and "real_of_int (days - int k) / real_of_int days \<le> 1"
proof -
  from assms have d: "0 < real_of_int days" by simp
  from assms have n: "0 \<le> real_of_int (days - int k)" by simp
  from n d show "0 \<le> real_of_int (days - int k) / real_of_int days" by simp
  have "real_of_int (days - int k) \<le> real_of_int days" by simp
  then show "real_of_int (days - int k) / real_of_int days \<le> 1" using d by simp
qed

lemma p_all_diff_unit:
  assumes "float_rounding rnd" and "int k \<le> days"
  shows "0 \<le> p_all_diff rnd days k \<and> p_all_diff rnd days k \<le> 1
    \<and> rnd (p_all_diff rnd days k) = p_all_diff rnd days k"
  using assms(2)
proof (induction k)
  case 0
  then show ?case using assms(1) by (simp add: p_all_diff_0 float_rounding_def)
next
  case (Suc k)
  then have lt: "int k < days" and le: "int k \<le> days" by simp_all
  let ?q = "real_of_int (days - int k) / real_of_int days"
  have f: "0 \<le> rnd ?q" "rnd ?q \<le> 1"
    using float_rounding_unit [OF assms(1) day_factor_unit [OF lt]] by simp_all
  have p: "0 \<le> p_all_diff rnd days k" "p_all_diff rnd days k \<le> 1"
    using Suc.IH [OF le] by simp_all
  have prod0: "0 \<le> p_all_diff rnd days k * rnd ?q" using p(1) f(1) by simp
  have prod1: "p_all_diff rnd days k * rnd ?q \<le> 1"
    using mult_le_one [OF p(2) f(1) f(2)] .
  have idem: "rnd (rnd x) = rnd x" for x using assms(1) by (simp add: float_rounding_def)
  show ?case
    unfolding p_all_diff_Suc
    using float_rounding_unit [OF assms(1) prod0 prod1] idem by simp
qed

lemma p_all_diff_step_le:
  assumes "float_rounding rnd" and "int k < days"
  shows "p_all_diff rnd days (Suc k) \<le> p_all_diff rnd days k"
proof -
  let ?q = "real_of_int (days - int k) / real_of_int days"
  from assms(2) have le: "int k \<le> days" by simp
  have f: "0 \<le> rnd ?q" "rnd ?q \<le> 1"
    using float_rounding_unit [OF assms(1) day_factor_unit [OF assms(2)]] by simp_all
  have p: "0 \<le> p_all_diff rnd days k" "rnd (p_all_diff rnd days k) = p_all_diff rnd days k"
    using p_all_diff_unit [OF assms(1) le] by simp_all
  have "p_all_diff rnd days k * rnd ?q \<le> p_all_diff rnd days k"
    using mult_left_le [OF f(2) p(1)] .
  moreover have "mono rnd" using assms(1) by (simp add: float_rounding_def)
  ultimately have "rnd (p_all_diff rnd days k * rnd ?q) \<le> rnd (p_all_diff rnd days k)"
    by (rule monoD [rotated])
  then show ?thesis unfolding p_all_diff_Suc p(2) .
qed

lemma p_all_diff_antimono:
  assumes "float_rounding rnd" and "j \<le> k" and "int k \<le> days"
  shows "p_all_diff rnd days k \<le> p_all_diff rnd days j"
  using assms(2,3)
proof (induction k)
  case 0
  then show ?case by simp
next
  case (Suc k)
  show ?case
  proof (cases "j = Suc k")
    case True
    then show ?thesis by simp
  next
    case False
    with Suc.prems have jk: "j \<le> k" and lt: "int k < days" by simp_all
    have "p_all_diff rnd days (Suc k) \<le> p_all_diff rnd days k"
      by (rule p_all_diff_step_le [OF assms(1) lt])
    also have "\<dots> \<le> p_all_diff rnd days j" using Suc.IH [OF jk] lt by simp
    finally show ?thesis .
  qed
qed


lemma exact_probability_unit:
  assumes "float_rounding rnd" and "exact_probability rnd n days = Inr p"
  shows "0 \<le> p \<and> p \<le> 1"
proof -
  consider "n \<le> 1" | "1 < n" "days < n" | "1 < n" "n \<le> days" by linarith
  then show ?thesis
  proof cases
    case 1
    then show ?thesis using assms(2) by (simp add: exact_probability_value)
  next
    case 2
    then show ?thesis using assms(2) by (simp add: exact_probability_value)
  next
    case 3
    then have k: "int (nat n) \<le> days" by simp
    have p: "p = rnd (1 - p_all_diff rnd days (nat n))"
      using 3 assms(2) by (simp add: exact_probability_value)
    have "0 \<le> 1 - p_all_diff rnd days (nat n)" "1 - p_all_diff rnd days (nat n) \<le> 1"
      using p_all_diff_unit [OF assms(1) k] by simp_all
    then show ?thesis unfolding p using float_rounding_unit [OF assms(1)] by simp
  qed
qed

lemma exact_probability_mono_aux:
  assumes "float_rounding rnd" and "n1 \<le> n2"
    and "exact_probability rnd n1 days = Inr p1" and "exact_probability rnd n2 days = Inr p2"
  shows "p1 \<le> p2"
proof -
  consider "n1 \<le> 1" | "1 < n1" "days < n2" | "1 < n1" "n2 \<le> days" by linarith
  then show ?thesis
  proof cases
    case 1
    then have "p1 = 0" using assms(3) by (simp add: exact_probability_value)
    then show ?thesis using exact_probability_unit [OF assms(1) assms(4)] by simp
  next
    case 2
    then have "1 < n2" using assms(2) by simp
    then have "p2 = 1" using 2 assms(4) by (simp add: exact_probability_value)
    then show ?thesis using exact_probability_unit [OF assms(1) assms(3)] by simp
  next
    case 3
    then have n2: "1 < n2" and n1: "n1 \<le> days" using assms(2) by simp_all
    have p1: "p1 = rnd (1 - p_all_diff rnd days (nat n1))"
      using 3 n1 assms(3) by (simp add: exact_probability_value)
    have p2: "p2 = rnd (1 - p_all_diff rnd days (nat n2))"
      using 3 n2 assms(4) by (simp add: exact_probability_value)
    have "p_all_diff rnd days (nat n2) \<le> p_all_diff rnd days (nat n1)"
      by (rule p_all_diff_antimono [OF assms(1)]) (use assms(2) 3 in simp_all)
    then have "1 - p_all_diff rnd days (nat n1) \<le> 1 - p_all_diff rnd days (nat n2)" by simp
    moreover have "mono rnd" using assms(1) by (simp add: float_rounding_def)
    ultimately show ?thesis unfolding p1 p2 by (rule monoD [rotated])
  qed
qed


lemma abs_scaled_diff_left: "0 \<le> a \<Longrightarrow> \<bar>a * b - a * c\<bar> = a * \<bar>b - c\<bar>" for a b c :: real
  by (simp add: abs_mult right_diff_distrib [symmetric])

lemma abs_scaled_diff_right: "0 \<le> c \<Longrightarrow> \<bar>a * c - b * c\<bar> = \<bar>a - b\<bar> * c" for a b c :: real
  by (simp add: abs_mult left_diff_distrib [symmetric])

lemma p_all_diff_error:
  assumes "float_rounding rnd" and "int k \<le> days"
  shows "\<bar>p_all_diff rnd days k - (\<Prod>i = 0..<k. real_of_int (days - int i) / real_of_int days)\<bar>
    \<le> 2 * real k / 2 ^ 53"
  using assms(2)
proof (induction k)
  case 0
  then show ?case by (simp add: p_all_diff_0)
next
  case (Suc k)
  then have lt: "int k < days" and le: "int k \<le> days" by simp_all
  let ?q = "real_of_int (days - int k) / real_of_int days"
  let ?P = "p_all_diff rnd days k"
  let ?Q = "\<Prod>i = 0..<k. real_of_int (days - int i) / real_of_int days"
  have err: "\<bar>rnd x - x\<bar> \<le> 1 / 2 ^ 53" if "0 \<le> x" "x \<le> 1" for x
    using assms(1) that by (simp add: float_rounding_def)
  have q: "0 \<le> ?q" "?q \<le> 1" using day_factor_unit [OF lt] by simp_all
  have f: "0 \<le> rnd ?q" "rnd ?q \<le> 1"
    using float_rounding_unit [OF assms(1) q] by simp_all
  have p: "0 \<le> ?P" "?P \<le> 1" using p_all_diff_unit [OF assms(1) le] by simp_all
  have prod0: "0 \<le> ?P * rnd ?q" using p(1) f(1) by simp
  have prod1: "?P * rnd ?q \<le> 1" using mult_le_one [OF p(2) f(1) f(2)] .
  have e1: "\<bar>rnd (?P * rnd ?q) - ?P * rnd ?q\<bar> \<le> 1 / 2 ^ 53"
    by (rule err [OF prod0 prod1])
  have "\<bar>?P * rnd ?q - ?P * ?q\<bar> = ?P * \<bar>rnd ?q - ?q\<bar>"
    by (rule abs_scaled_diff_left [OF p(1)])
  also have "\<dots> \<le> 1 * (1 / 2 ^ 53)"
    by (rule mult_mono [OF p(2) err [OF q]]) simp_all
  finally have e2: "\<bar>?P * rnd ?q - ?P * ?q\<bar> \<le> 1 / 2 ^ 53" by simp
  have "\<bar>?P * ?q - ?Q * ?q\<bar> = \<bar>?P - ?Q\<bar> * ?q"
    by (rule abs_scaled_diff_right [OF q(1)])
  also have "\<dots> \<le> \<bar>?P - ?Q\<bar> * 1"
    by (rule mult_left_mono [OF q(2)]) simp
  also have "\<dots> \<le> 2 * real k / 2 ^ 53" using Suc.IH [OF le] by simp
  finally have e3: "\<bar>?P * ?q - ?Q * ?q\<bar> \<le> 2 * real k / 2 ^ 53" .
  have "\<bar>rnd (?P * rnd ?q) - ?Q * ?q\<bar> \<le> 1 / 2 ^ 53 + 1 / 2 ^ 53 + 2 * real k / 2 ^ 53"
    using e1 e2 e3 by linarith
  also have "\<dots> = 2 * real (Suc k) / 2 ^ 53" by (simp add: field_simps)
  finally show ?case by (simp add: p_all_diff_Suc)
qed




lemma float_rounding_exact: "float_rounding (\<lambda>x. x)"
  by (simp add: float_rounding_def mono_def)

lemma exact_probability_error:
  assumes "float_rounding rnd" and "1 < n" and "n \<le> days"
    and "exact_probability rnd n days = Inr p"
  shows "\<bar>p - (1 - (\<Prod>i = 0..<nat n. real_of_int (days - int i) / real_of_int days))\<bar>
    \<le> (2 * real_of_int n + 1) / 2 ^ 53"
proof -
  let ?P = "p_all_diff rnd days (nat n)"
  let ?Q = "\<Prod>i = 0..<nat n. real_of_int (days - int i) / real_of_int days"
  from assms(2,3) have k: "int (nat n) \<le> days" by simp
  have p: "p = rnd (1 - ?P)"
    using assms(2,3,4) by (simp add: exact_probability_value)
  have u: "0 \<le> 1 - ?P" "1 - ?P \<le> 1"
    using p_all_diff_unit [OF assms(1) k] by simp_all
  have e1: "\<bar>rnd (1 - ?P) - (1 - ?P)\<bar> \<le> 1 / 2 ^ 53"
    using assms(1) u by (simp add: float_rounding_def)
  have "\<bar>?P - ?Q\<bar> \<le> 2 * real (nat n) / 2 ^ 53"
    by (rule p_all_diff_error [OF assms(1) k])
  also have "real (nat n) = real_of_int n" using assms(2) by simp
  finally have e2: "\<bar>?P - ?Q\<bar> \<le> 2 * real_of_int n / 2 ^ 53" .
  have "\<bar>rnd (1 - ?P) - (1 - ?Q)\<bar> \<le> 1 / 2 ^ 53 + 2 * real_of_int n / 2 ^ 53"
    using e1 e2 by linarith
  also have "\<dots> = (2 * real_of_int n + 1) / 2 ^ 53" by (simp add: field_simps)
  finally show ?thesis unfolding p .
qed





text \<open>
  Claim C3. For every fixed \<open>days \<ge> 1\<close>, \<^verbatim>\<open>exact_probability\<close> is monotonically
  non-decreasing in \<open>n\<close>, under any float rounding: the running product never grows,
  since each factor is at most 1 and rounding is monotone.
\<close>

theorem exact_probability_monotone:
  assumes "float_rounding rnd" and "1 \<le> days" and "n1 \<le> n2"
  shows "\<exists>p1 p2. exact_probability rnd n1 days = Inr p1
    \<and> exact_probability rnd n2 days = Inr p2 \<and> p1 \<le> p2"
proof -
  obtain p1 where p1: "exact_probability rnd n1 days = Inr p1"
    by (simp add: exact_probability_value)
  obtain p2 where p2: "exact_probability rnd n2 days = Inr p2"
    by (simp add: exact_probability_value)
  have "p1 \<le> p2" by (rule exact_probability_mono_aux [OF assms(1) assms(3) p1 p2])
  with p1 p2 show ?thesis by blast
qed

theorem exact_probability_monotone_witness:
  "float_rounding (\<lambda>x. x) \<and> (1::int) \<le> 3 \<and> (2::int) \<le> 3
   \<and> (\<exists>p1 p2. exact_probability (\<lambda>x. x) 2 3 = Inr p1
        \<and> exact_probability (\<lambda>x. x) 3 3 = Inr p2 \<and> p1 \<le> p2)"
proof -
  have fr: "float_rounding (\<lambda>x. x)" by (rule float_rounding_exact)
  have d: "(1::int) \<le> 3" and n: "(2::int) \<le> 3" by simp_all
  from fr d n exact_probability_monotone [OF fr d n] show ?thesis by blast
qed

lemma smallest_group_loop_scan:
  assumes "\<forall>m. a \<le> m \<and> m < b \<longrightarrow> (\<exists>q. exact_probability rnd m days = Inr q \<and> q < target)"
    and "a \<le> b"
    and "exact_probability rnd b days = Inr p" and "\<not> p < target"
  shows "smallest_group_loop rnd target days a = Some (Inr b)"
  using assms(1,2)
proof (induction "nat (b - a)" arbitrary: a)
  case 0
  then have "a = b" by simp
  then show ?case
    using assms(3,4) by (subst smallest_group_loop.simps) simp
next
  case (Suc k)
  then have lt: "a < b" by linarith
  obtain q where q: "exact_probability rnd a days = Inr q" "q < target"
    using Suc.prems(1) lt by auto
  have k: "k = nat (b - (a + 1))" using Suc.hyps(2) by linarith
  have rest: "\<forall>m. a + 1 \<le> m \<and> m < b \<longrightarrow>
      (\<exists>q. exact_probability rnd m days = Inr q \<and> q < target)"
    using Suc.prems(1) by auto
  have "smallest_group_loop rnd target days (a + 1) = Some (Inr b)"
    by (rule Suc.hyps(1) [OF k rest]) (use lt in simp)
  then show ?case
    using q by (subst smallest_group_loop.simps) simp
qed

lemma smallest_group_for_exists:
  assumes "1 \<le> days" and "target \<le> 1"
  shows "\<exists>n. smallest_group_for rnd target days = Some (Inr n) \<and> 1 \<le> n
           \<and> (\<exists>p. exact_probability rnd n days = Inr p \<and> target \<le> p)
           \<and> (\<forall>m. 1 \<le> m \<and> m < n \<longrightarrow>
                 (\<exists>q. exact_probability rnd m days = Inr q \<and> q < target))"
proof -
  define v where "v n = (if n \<le> 1 then 0 else if n > days then 1
          else rnd (1 - p_all_diff rnd days (nat n)))" for n
  have ep: "exact_probability rnd n days = Inr (v n)" for n
    by (simp add: exact_probability_value v_def)
  define S where "S = {k::nat. \<not> v (1 + int k) < target}"
  have "v (1 + int (nat days)) = 1" using assms(1) by (simp add: v_def)
  then have "nat days \<in> S" using assms(2) by (simp add: S_def)
  define k where "k = (LEAST k. k \<in> S)"
  have kS: "k \<in> S" unfolding k_def using \<open>nat days \<in> S\<close> by (rule LeastI)
  have below: "j \<notin> S" if "j < k" for j
    using that not_less_Least unfolding k_def by blast
  define b where "b = 1 + int k"
  have hit: "\<not> v b < target" using kS by (simp add: S_def b_def)
  have miss: "\<forall>m. 1 \<le> m \<and> m < b \<longrightarrow> (\<exists>q. exact_probability rnd m days = Inr q \<and> q < target)"
  proof (intro allI impI)
    fix m assume m: "1 \<le> m \<and> m < b"
    then have "nat (m - 1) < k" unfolding b_def by linarith
    then have "nat (m - 1) \<notin> S" by (rule below)
    moreover have "1 + int (nat (m - 1)) = m" using m by simp
    ultimately have "v m < target" by (simp add: S_def)
    then show "\<exists>q. exact_probability rnd m days = Inr q \<and> q < target" using ep by blast
  qed
  have "smallest_group_loop rnd target days 1 = Some (Inr b)"
    by (rule smallest_group_loop_scan [OF miss _ ep hit]) (simp add: b_def)
  then have "smallest_group_for rnd target days = Some (Inr b)"
    by (simp add: smallest_group_for_def)
  moreover have "1 \<le> b" by (simp add: b_def)
  moreover have "\<exists>p. exact_probability rnd b days = Inr p \<and> target \<le> p"
    using ep hit by (metis not_less)
  ultimately show ?thesis using miss by blast
qed

lemma smallest_group_for_between:
  assumes "float_rounding rnd" and "1 < b"
    and "exact_probability rnd (b - 1) days = Inr q" and "q < target"
    and "exact_probability rnd b days = Inr p" and "\<not> p < target"
  shows "smallest_group_for rnd target days = Some (Inr b)"
proof -
  have miss: "\<forall>m. 1 \<le> m \<and> m < b \<longrightarrow> (\<exists>q. exact_probability rnd m days = Inr q \<and> q < target)"
  proof (intro allI impI)
    fix m assume m: "1 \<le> m \<and> m < b"
    obtain r where r: "exact_probability rnd m days = Inr r"
      by (simp add: exact_probability_value)
    have "m \<le> b - 1" using m by simp
    then have "r \<le> q" by (rule exact_probability_mono_aux [OF assms(1) _ r assms(3)])
    then have "r < target" using assms(4) by simp
    then show "\<exists>q. exact_probability rnd m days = Inr q \<and> q < target" using r by blast
  qed
  have "smallest_group_loop rnd target days 1 = Some (Inr b)"
    by (rule smallest_group_loop_scan [OF miss _ assms(5,6)]) (use assms(2) in simp)
  then show ?thesis by (simp add: smallest_group_for_def)
qed

lemma product_365_22:
  "(13 / 25 :: real) < (\<Prod>i = 0..<22. real_of_int (365 - int i) / real_of_int 365)"
  by (simp add: eval_nat_numeral prod.atLeast0_lessThan_Suc)

lemma product_365_23:
  "(\<Prod>i = 0..<23. real_of_int (365 - int i) / real_of_int 365) < (499 / 1000 :: real)"
  by (simp add: eval_nat_numeral prod.atLeast0_lessThan_Suc)

lemma product_365_56:
  "(11 / 1000 :: real) < (\<Prod>i = 0..<56. real_of_int (365 - int i) / real_of_int 365)"
  by (simp add: eval_nat_numeral prod.atLeast0_lessThan_Suc)

lemma product_365_57:
  "(\<Prod>i = 0..<57. real_of_int (365 - int i) / real_of_int 365) < (99 / 10000 :: real)"
  by (simp add: eval_nat_numeral prod.atLeast0_lessThan_Suc)

lemma smallest_group_for_half:
  assumes "float_rounding rnd"
  shows "smallest_group_for rnd (rnd (1 / 2)) 365 = Some (Inr 23)"
proof -
  obtain q where q: "exact_probability rnd (23 - 1) 365 = Inr q"
    by (simp add: exact_probability_value)
  obtain p where p: "exact_probability rnd 23 365 = Inr p"
    by (simp add: exact_probability_value)
  have t: "\<bar>rnd (1 / 2) - 1 / 2\<bar> \<le> 1 / 2 ^ 53"
    using assms by (simp add: float_rounding_def)
  have "\<bar>q - (1 - (\<Prod>i = 0..<nat 22. real_of_int (365 - int i) / real_of_int 365))\<bar>
      \<le> (2 * real_of_int 22 + 1) / 2 ^ 53"
    by (rule exact_probability_error [OF assms]) (use q in simp_all)
  then have eq: "\<bar>q - (1 - (\<Prod>i = 0..<22. real_of_int (365 - int i) / real_of_int 365))\<bar>
      \<le> 45 / 2 ^ 53" by simp
  have "\<bar>p - (1 - (\<Prod>i = 0..<nat 23. real_of_int (365 - int i) / real_of_int 365))\<bar>
      \<le> (2 * real_of_int 23 + 1) / 2 ^ 53"
    by (rule exact_probability_error [OF assms]) (use p in simp_all)
  then have ep: "\<bar>p - (1 - (\<Prod>i = 0..<23. real_of_int (365 - int i) / real_of_int 365))\<bar>
      \<le> 47 / 2 ^ 53" by simp
  have small: "(47 :: real) / 2 ^ 53 < 1 / 2000" by simp
  have lo: "q < rnd (1 / 2)" using eq t product_365_22 small by linarith
  have hi: "\<not> p < rnd (1 / 2)" using ep t product_365_23 small by linarith
  show ?thesis
    by (rule smallest_group_for_between [OF assms _ q lo p hi]) simp
qed

lemma smallest_group_for_99:
  assumes "float_rounding rnd"
  shows "smallest_group_for rnd (rnd (99 / 100)) 365 = Some (Inr 57)"
proof -
  obtain q where q: "exact_probability rnd (57 - 1) 365 = Inr q"
    by (simp add: exact_probability_value)
  obtain p where p: "exact_probability rnd 57 365 = Inr p"
    by (simp add: exact_probability_value)
  have t: "\<bar>rnd (99 / 100) - 99 / 100\<bar> \<le> 1 / 2 ^ 53"
    using assms by (simp add: float_rounding_def)
  have "\<bar>q - (1 - (\<Prod>i = 0..<nat 56. real_of_int (365 - int i) / real_of_int 365))\<bar>
      \<le> (2 * real_of_int 56 + 1) / 2 ^ 53"
    by (rule exact_probability_error [OF assms]) (use q in simp_all)
  then have eq: "\<bar>q - (1 - (\<Prod>i = 0..<56. real_of_int (365 - int i) / real_of_int 365))\<bar>
      \<le> 113 / 2 ^ 53" by simp
  have "\<bar>p - (1 - (\<Prod>i = 0..<nat 57. real_of_int (365 - int i) / real_of_int 365))\<bar>
      \<le> (2 * real_of_int 57 + 1) / 2 ^ 53"
    by (rule exact_probability_error [OF assms]) (use p in simp_all)
  then have ep: "\<bar>p - (1 - (\<Prod>i = 0..<57. real_of_int (365 - int i) / real_of_int 365))\<bar>
      \<le> 115 / 2 ^ 53" by simp
  have small: "(116 :: real) / 2 ^ 53 < 1 / 100000" by simp
  have lo: "q < rnd (99 / 100)" using eq t product_365_56 small by linarith
  have hi: "\<not> p < rnd (99 / 100)" using ep t product_365_57 small by linarith
  show ?thesis
    by (rule smallest_group_for_between [OF assms _ q lo p hi]) simp
qed


text \<open>
  Claim C2. For every \<open>days \<ge> 1\<close> and every target with \<open>0 \<le> target \<le> 1\<close>,
  \<^verbatim>\<open>smallest_group_for(target, days)\<close> terminates and returns the smallest \<open>n \<ge> 1\<close>
  whose \<^verbatim>\<open>exact_probability(n, days)\<close> is at least the target; with the float literals
  \<^verbatim>\<open>0.5\<close> and \<^verbatim>\<open>0.99\<close> and 365 days the results are 23 and 57, under any float rounding.
\<close>

theorem smallest_group_for_least:
  assumes "float_rounding rnd" and "1 \<le> days" and "0 \<le> target" and "target \<le> 1"
  shows "(\<exists>n. smallest_group_for rnd target days = Some (Inr n) \<and> 1 \<le> n
           \<and> (\<exists>p. exact_probability rnd n days = Inr p \<and> target \<le> p)
           \<and> (\<forall>m. 1 \<le> m \<and> m < n \<longrightarrow>
                 (\<exists>q. exact_probability rnd m days = Inr q \<and> q < target)))
    \<and> smallest_group_for rnd (rnd (1 / 2)) 365 = Some (Inr 23)
    \<and> smallest_group_for rnd (rnd (99 / 100)) 365 = Some (Inr 57)"
  using smallest_group_for_exists [OF assms(2,4), of rnd]
    smallest_group_for_half [OF assms(1)] smallest_group_for_99 [OF assms(1)]
  by blast

theorem smallest_group_for_least_witness:
  "float_rounding (\<lambda>x. x) \<and> (1::int) \<le> 365 \<and> (0::real) \<le> 1 / 2 \<and> (1 / 2 :: real) \<le> 1
   \<and> smallest_group_for (\<lambda>x. x) (1 / 2) 365 = Some (Inr 23)
   \<and> smallest_group_for (\<lambda>x. x) (99 / 100) 365 = Some (Inr 57)
   \<and> (\<exists>q. exact_probability (\<lambda>x. x) 22 365 = Inr q \<and> q < 1 / 2)"
proof -
  have fr: "float_rounding (\<lambda>x. x)" by (simp add: float_rounding_def mono_def)
  have d: "(1::int) \<le> 365" and t0: "(0::real) \<le> 1 / 2" and t1: "(1 / 2 :: real) \<le> 1"
    by simp_all
  note w = smallest_group_for_least [OF fr d t0 t1]
  from w have a: "smallest_group_for (\<lambda>x. x) (1 / 2) 365 = Some (Inr 23)" by blast
  from w have b: "smallest_group_for (\<lambda>x. x) (99 / 100) 365 = Some (Inr 57)" by blast
  from w obtain n where n: "smallest_group_for (\<lambda>x. x) (1 / 2) 365 = Some (Inr n)"
    and below: "\<forall>m. 1 \<le> m \<and> m < n \<longrightarrow>
      (\<exists>q. exact_probability (\<lambda>x. x) m 365 = Inr q \<and> q < 1 / 2)"
    by blast
  from n a have "n = 23" by simp
  with below have c: "\<exists>q. exact_probability (\<lambda>x. x) 22 365 = Inr q \<and> q < 1 / 2" by simp
  from fr d t0 t1 a b c show ?thesis by blast
qed






section \<open>Properties of the simulation and the histogram\<close>

lemma simulation_loop_trials:
  "simulation_loop t n include_leap hits g =
     (case trial_groups t n include_leap g of
        (Inl e, g') \<Rightarrow> (Inl e, g')
      | (Inr gs, g') \<Rightarrow> (Inr (hits + int (length (filter has_shared_birthday gs))), g'))"
proof (induction t arbitrary: hits g)
  case 0
  then show ?case by simp
next
  case (Suc t)
  show ?case
    by (simp add: Suc.IH split: prod.splits sum.splits)
qed

lemma histogram_loop_trials:
  "histogram_loop t n include_leap buckets g =
     (case trial_groups t n include_leap g of
        (Inl e, g') \<Rightarrow> (Inl e, g')
      | (Inr gs, g') \<Rightarrow> (Inr (fold (\<lambda>ds b. bump b (bucket_label ds)) gs buckets), g'))"
proof (induction t arbitrary: buckets g)
  case 0
  then show ?case by simp
next
  case (Suc t)
  show ?case
    by (simp add: Suc.IH bucket_label_def Let_def split: prod.splits sum.splits)
qed

lemma bump_apply:
  "bump buckets l l' =
     (if l' = l then Some ((case buckets l of None \<Rightarrow> 0 | Some c \<Rightarrow> c) + 1) else buckets l')"
  by (simp add: bump_def)

lemma fold_bump_count:
  "fold (\<lambda>ds b. bump b (bucket_label ds)) gs buckets label =
     (if filter (\<lambda>ds. bucket_label ds = label) gs = [] then buckets label
      else Some (int (length (filter (\<lambda>ds. bucket_label ds = label) gs))
                 + (case buckets label of None \<Rightarrow> 0 | Some v \<Rightarrow> v)))"
proof (induction gs arbitrary: buckets)
  case Nil
  then show ?case by simp
next
  case (Cons ds gs)
  let ?f = "\<lambda>ds b. bump b (bucket_label ds)"
  let ?b = "bump buckets (bucket_label ds)"
  have step: "fold ?f (ds # gs) buckets label = fold ?f gs ?b label" by simp
  show ?case
  proof (cases "bucket_label ds = label")
    case True
    have b: "?b label = Some ((case buckets label of None \<Rightarrow> 0 | Some c \<Rightarrow> c) + 1)"
      using True by (simp add: bump_apply)
    show ?thesis
      unfolding step Cons.IH [of ?b] b using True by simp
  next
    case False
    have b: "?b label = buckets label" using False by (simp add: bump_apply)
    show ?thesis
      unfolding step Cons.IH [of ?b] b using False by simp
  qed
qed

lemma trial_groups_common_returns:
  "\<exists>gs g'. trial_groups t n False g = (Inr gs, g') \<and> length gs = t"
proof (induction t arbitrary: g)
  case 0
  then show ?case by simp
next
  case (Suc t)
  obtain ds where ds: "generate_group n False g = (Inr ds, \<lambda>i. g (i + 2 * nat n))"
    using generate_loop_common_returns [of "nat n" g] by (auto simp: generate_group_def)
  obtain gs g' where gs: "trial_groups t n False (\<lambda>i. g (i + 2 * nat n)) = (Inr gs, g')"
      and len: "length gs = t"
    using Suc.IH by blast
  show ?case using ds gs len by simp
qed

lemma trial_groups_length:
  "trial_groups t n include_leap g = (Inr gs, g') \<Longrightarrow> length gs = t"
proof (induction t arbitrary: g gs g')
  case 0
  then show ?case by simp
next
  case (Suc t)
  then show ?case by (auto split: prod.splits sum.splits)
qed


lemma simulated_probability_trials:
  "simulated_probability rnd n trials include_leap g =
     (case trial_groups (nat trials) n include_leap g of
        (Inl e, g') \<Rightarrow> (Inl e, g')
      | (Inr gs, g') \<Rightarrow>
          (py_truediv rnd (int (length (filter has_shared_birthday gs))) trials, g'))"
  by (simp add: simulated_probability_def simulation_loop_trials split: prod.splits sum.splits)

lemma simulated_probability_zero_trials:
  "simulated_probability rnd n 0 include_leap g = (Inl ZeroDivisionError, g)"
  by (simp add: simulated_probability_def py_truediv_def)

lemma simulated_probability_common:
  assumes "float_rounding rnd" and "1 \<le> trials"
  shows "\<exists>gs g'. trial_groups (nat trials) n False g = (Inr gs, g')
    \<and> simulated_probability rnd n trials False g =
        (Inr (rnd (real (length (filter has_shared_birthday gs)) / real_of_int trials)), g')
    \<and> 0 \<le> rnd (real (length (filter has_shared_birthday gs)) / real_of_int trials)
    \<and> rnd (real (length (filter has_shared_birthday gs)) / real_of_int trials) \<le> 1"
proof -
  obtain gs g' where gs: "trial_groups (nat trials) n False g = (Inr gs, g')"
      and len: "length gs = nat trials"
    using trial_groups_common_returns by blast
  let ?h = "length (filter has_shared_birthday gs)"
  have "?h \<le> length gs" by (rule length_filter_le)
  then have h: "real ?h \<le> real_of_int trials" using len assms(2) by linarith
  have pos: "0 < real_of_int trials" using assms(2) by simp
  have q0: "0 \<le> real ?h / real_of_int trials" using pos by simp
  have q1: "real ?h / real_of_int trials \<le> 1" using h pos by simp
  have t: "trials \<noteq> 0" using assms(2) by simp
  have "\<bar>real_of_int (int ?h) / real_of_int trials\<bar> \<le> 1" using q0 q1 by simp
  from py_truediv_unit [OF t this]
  have v: "simulated_probability rnd n trials False g =
        (Inr (rnd (real ?h / real_of_int trials)), g')"
    using gs by (simp add: simulated_probability_trials)
  from gs v float_rounding_unit [OF assms(1) q0 q1] show ?thesis by blast
qed

lemma bucket_label_cases:
  "bucket_label ds = ''0 days with duplicates'' \<or> bucket_label ds = ''1 day with duplicates''
   \<or> bucket_label ds = ''2+ days with duplicates''"
  by (simp add: bucket_label_def Let_def)

lemma fold_bump_empty:
  "fold (\<lambda>ds b. bump b (bucket_label ds)) gs Map.empty =
     (\<lambda>label. if filter (\<lambda>ds. bucket_label ds = label) gs = [] then None
               else Some (int (length (filter (\<lambda>ds. bucket_label ds = label) gs))))"
  by (rule ext) (simp add: fold_bump_count)

lemma collision_histogram_trials:
  "collision_histogram n trials include_leap g =
     (case trial_groups (nat trials) n include_leap g of
        (Inl e, g') \<Rightarrow> (Inl e, g')
      | (Inr gs, g') \<Rightarrow>
          (Inr (\<lambda>label. if filter (\<lambda>ds. bucket_label ds = label) gs = [] then None
                         else Some (int (length (filter (\<lambda>ds. bucket_label ds = label) gs)))),
           g'))"
  by (simp add: collision_histogram_def histogram_loop_trials fold_bump_empty
      split: prod.splits sum.splits)

lemma collision_histogram_labels:
  assumes "collision_histogram n trials include_leap g = (Inr buckets, g')"
  shows "dom buckets \<subseteq>
    {''0 days with duplicates'', ''1 day with duplicates'', ''2+ days with duplicates''}"
proof
  fix label assume "label \<in> dom buckets"
  then obtain c where c: "buckets label = Some c" by blast
  obtain gs where b: "buckets = (\<lambda>label. if filter (\<lambda>ds. bucket_label ds = label) gs = []
      then None else Some (int (length (filter (\<lambda>ds. bucket_label ds = label) gs))))"
    using assms unfolding collision_histogram_trials
    by (auto split: prod.splits sum.splits)
  have "filter (\<lambda>ds. bucket_label ds = label) gs \<noteq> []"
    using c unfolding b by (simp split: if_splits)
  then obtain ds where "bucket_label ds = label"
    by (metis (mono_tags, lifting) filter_False)
  then show "label \<in>
    {''0 days with duplicates'', ''1 day with duplicates'', ''2+ days with duplicates''}"
    using bucket_label_cases [of ds] by auto
qed

lemma collision_histogram_common_returns:
  "\<exists>gs g'. trial_groups (nat trials) n False g = (Inr gs, g') \<and> length gs = nat trials
    \<and> collision_histogram n trials False g =
        (Inr (\<lambda>label. if filter (\<lambda>ds. bucket_label ds = label) gs = [] then None
                       else Some (int (length (filter (\<lambda>ds. bucket_label ds = label) gs)))),
         g')"
proof -
  obtain gs g' where gs: "trial_groups (nat trials) n False g = (Inr gs, g')"
      and len: "length gs = nat trials"
    using trial_groups_common_returns by blast
  then show ?thesis by (simp add: collision_histogram_trials)
qed

lemma leap_day_tape:
  "random_birthday 2001 True (\<lambda>i. if i = 0 then 31 else 28) = (Inl ValueError, \<lambda>i. 28)"
  by (simp add: random_birthday_def month_lengths_def MONTH_LENGTHS_LEAP_def random_choices_def
    draw_def list_index_def random_randint_def date_new_def days_in_month_def is_leap_def
    MONTH_LENGTHS_COMMON_def)

lemma generate_group_leap_day:
  "generate_group 1 True (\<lambda>i. if i = 0 then 31 else 28) = (Inl ValueError, \<lambda>i. 28)"
  by (simp add: generate_group_def leap_day_tape)

text \<open>
  Claim C9 at a failing input. With \<^verbatim>\<open>include_leap=True\<close>, one trial of one person and
  the draws that choose February 29, \<^verbatim>\<open>collision_histogram\<close> raises the
  \<^verbatim>\<open>ValueError\<close> of the date constructor: the trial is not classified and no mapping is
  returned. Whenever every group is generated, the returned mapping is the one the
  claim describes (\<open>collision_histogram_trials\<close>, \<open>collision_histogram_labels\<close>), and
  with \<^verbatim>\<open>include_leap=False\<close> that is always so
  (\<open>collision_histogram_common_returns\<close>).
\<close>

theorem collision_histogram_leap_day_raises:
  "fst (collision_histogram 1 1 True (\<lambda>i. if i = 0 then 31 else 28)) = Inl ValueError"
  by (simp add: collision_histogram_def generate_group_leap_day)

text \<open>
  Claim C10 at a failing input: with \<^verbatim>\<open>trials = 1\<close>, \<^verbatim>\<open>include_leap=True\<close> and the
  draws that choose February 29, \<^verbatim>\<open>simulated_probability\<close> raises \<^verbatim>\<open>ValueError\<close>
  instead of returning the hit rate. With \<^verbatim>\<open>include_leap=False\<close> and \<open>trials \<ge> 1\<close> it
  returns the number of groups with a shared birthday divided by the trials, in
  \<open>[0, 1]\<close> (\<open>simulated_probability_common\<close>), and with \<open>trials = 0\<close> it raises
  \<^verbatim>\<open>ZeroDivisionError\<close> (\<open>simulated_probability_zero_trials\<close>).
\<close>

theorem simulated_probability_leap_day_raises:
  "fst (simulated_probability rnd 1 1 True (\<lambda>i. if i = 0 then 31 else 28)) = Inl ValueError"
  by (simp add: simulated_probability_def generate_group_leap_day)

end
